theory Spec2Isabelle
  imports Main "HOL-Library.Word"
begin

unbundle bit_operations_syntax

section \<open>JavaScript values, exceptions and number operators\<close>

text \<open>
  Values the core rules of \<^verbatim>\<open>src/core/core.ts\<close> produce. An object is the list of its
  own properties in enumeration order; every object built here has the null prototype
  (\<^verbatim>\<open>Object.create(null)\<close>), so a property is present exactly when it is in the list.
  Seeds are integer-valued Numbers and are modelled as \<open>int\<close>: the integer \<open>n\<close> stands
  for the Number whose value is \<open>n\<close>, when there is one (\<open>is_Number\<close> below). The
  remainder, the indexing and the 32-bit conjunction are exact on every such Number.
\<close>

datatype jsvalue =
    VNum int
  | VBool bool
  | VStr string
  | VObj "(string \<times> jsvalue) list"

text \<open>
  An exception leaves a call as \<open>Inl\<close>. \<open>TypeError\<close> is what reading a property of
  \<^verbatim>\<open>undefined\<close> throws; \<open>Thrown\<close> stands for anything a registered rule throws itself.
\<close>

datatype error = TypeError | Thrown string

text \<open>
  The remainder operator \<^verbatim>\<open>a % b\<close> on integer-valued Numbers: the result has the sign
  of the dividend, and a zero divisor gives NaN (\<open>None\<close>). Negative zero is not
  distinguished from zero: it compares equal to \<^verbatim>\<open>0\<close> under \<^verbatim>\<open>===\<close> and names the
  property \<^verbatim>\<open>"0"\<close> as an index.
\<close>

definition js_rem :: "int \<Rightarrow> int \<Rightarrow> int option" where
  "js_rem a b = (if b = 0 then None else Some (sgn a * (\<bar>a\<bar> mod \<bar>b\<bar>)))"

text \<open>
  \<^verbatim>\<open>xs[k]\<close> for an array and a computed Number key: an element for an integer inside
  the array, \<^verbatim>\<open>undefined\<close> (\<open>None\<close>) for NaN, a negative number or an index past the end.
\<close>

definition js_index :: "'a list \<Rightarrow> int option \<Rightarrow> 'a option" where
  "js_index xs k =
     (case k of
        None \<Rightarrow> None
      | Some i \<Rightarrow> if 0 \<le> i \<and> i < int (length xs) then Some (xs ! nat i) else None)"

text \<open>
  \<^verbatim>\<open>Number.isSafeInteger\<close>: the integers that a Number holds exactly, with exact
  neighbours.
\<close>

definition isSafeInteger :: "int \<Rightarrow> bool" where
  "isSafeInteger n \<longleftrightarrow> \<bar>n\<bar> \<le> 2 ^ 53 - 1"

text \<open>
  A Number is a binary floating point value with 53 significant bits. From \<open>2 ^ 52\<close> on
  the Numbers are integers; between \<open>2 ^ e\<close> and \<open>2 ^ (e + 1)\<close> they are the multiples of
  \<open>2 ^ (e - 52)\<close>, the spacing at that magnitude. An integer is the value of a Number
  when its magnitude is a multiple of the spacing there and below \<open>2 ^ 1024\<close>.
\<close>

function floor_log2 :: "int \<Rightarrow> nat" where
  "floor_log2 x = (if x < 2 then 0 else Suc (floor_log2 (x div 2)))"
  by pat_completeness auto
termination
  by (relation "measure nat") auto

declare floor_log2.simps [simp del]

definition spacing :: "int \<Rightarrow> int" where
  "spacing x = 2 ^ (floor_log2 x - 52)"

definition is_Number :: "int \<Rightarrow> bool" where
  "is_Number n \<longleftrightarrow> \<bar>n\<bar> mod spacing \<bar>n\<bar> = 0 \<and> \<bar>n\<bar> < 2 ^ 1024"

text \<open>The decimal digits of a non-negative integer, most significant first.\<close>

definition digit_char :: "nat \<Rightarrow> char" where
  "digit_char d = char_of (48 + d)"

function int_digits :: "int \<Rightarrow> string" where
  "int_digits x =
     (if x < 10 then [digit_char (nat x)]
      else int_digits (x div 10) @ [digit_char (nat (x mod 10))])"
  by pat_completeness auto
termination
  by (relation "measure nat") auto

declare int_digits.simps [simp del]

text \<open>
  Number-to-string conversion (\<^verbatim>\<open>Number::toString\<close>, radix 10) of a positive
  integer-valued Number \<open>x\<close>, as the template literal \<^verbatim>\<open>`${n}`\<close> performs it. The
  conversion takes the decimal \<open>s \<times> 10 ^ j\<close> with the fewest digits \<open>s\<close> among the
  values that, read back, round to \<open>x\<close>; among several it takes the closest to \<open>x\<close>, and
  of two equally close the even \<open>s\<close>. It prints the digits of \<open>s\<close> followed by \<open>j\<close>
  zeros when that makes at most 21 digits, and in exponent notation otherwise.

  \<open>rounds_to x v\<close>: the integer \<open>v\<close> is nearer to \<open>x\<close> than to the Numbers next to \<open>x\<close>
  (half the spacing above; half the spacing below, or a quarter when \<open>x\<close> is a power of
  two, where the spacing halves), a value half way counting when the last bit of \<open>x\<close> is
  even. All comparisons are made on the doubled values.
\<close>

definition rounds_to :: "int \<Rightarrow> int \<Rightarrow> bool" where
  "rounds_to x v =
     (let u = spacing x;
          lo = 2 * x - (if x = 2 ^ floor_log2 x then u div 2 else u);
          hi = 2 * x + u
      in if even (x div u) then lo \<le> 2 * v \<and> 2 * v \<le> hi else lo < 2 * v \<and> 2 * v < hi)"

text \<open>
  The multiple \<open>t \<times> p\<close> of \<open>p\<close> that rounds to \<open>x\<close> and is closest to \<open>x\<close>, if there is
  one: it is the multiple just below \<open>x\<close> or the one just above.
\<close>

definition closest_multiple :: "int \<Rightarrow> int \<Rightarrow> int option" where
  "closest_multiple x p =
     (let t0 = x div p; t1 = t0 + 1;
          a = rounds_to x (t0 * p); b = rounds_to x (t1 * p)
      in if a \<and> b then
           (if x - t0 * p < t1 * p - x then Some t0
            else if t1 * p - x < x - t0 * p then Some t1
            else if even t0 then Some t0 else Some t1)
         else if a then Some t0
         else if b then Some t1
         else None)"

text \<open>
  The digits \<open>s\<close> and the number \<open>j\<close> of zeros after them: the largest \<open>j\<close>, from the
  given bound down, for which a multiple of \<open>10 ^ j\<close> rounds to \<open>x\<close>.
\<close>

fun shortest :: "nat \<Rightarrow> int \<Rightarrow> int \<times> nat" where
  "shortest 0 x = (x, 0)"
| "shortest (Suc j) x =
     (case closest_multiple x (10 ^ Suc j) of
        Some t \<Rightarrow> (t, Suc j)
      | None \<Rightarrow> shortest j x)"

definition large_toString :: "int \<Rightarrow> string" where
  "large_toString x =
     (case shortest (length (int_digits x)) x of
        (s, j) \<Rightarrow>
          (let ds = int_digits s; k = length ds; n = k + j
           in if n \<le> 21 then ds @ replicate j (CHR ''0'')
              else (if k = 1 then ds else hd ds # CHR ''.'' # tl ds) @ ''e+'' @ int_digits (int n - 1)))"

text \<open>
  Below \<open>2 ^ 53\<close> every integer is a Number and no shorter decimal rounds to it: the
  conversion prints its digits.
\<close>

definition magnitude_toString :: "int \<Rightarrow> string" where
  "magnitude_toString x = (if x < 2 ^ 53 then int_digits x else large_toString x)"

definition number_toString :: "int \<Rightarrow> string" where
  "number_toString n =
     (if n < 0 then CHR ''-'' # magnitude_toString (- n) else magnitude_toString n)"

section \<open>Concrete leaf rules\<close>

text \<open>\<^verbatim>\<open>fuzzBoolean(n) = n % 2 === 0\<close>; a NaN remainder is not equal to 0.\<close>

definition fuzzBoolean :: "int \<Rightarrow> jsvalue" where
  "fuzzBoolean n = VBool (js_rem n 2 = Some 0)"

definition fuzzNumber :: "int \<Rightarrow> jsvalue" where
  "fuzzNumber n = VNum n"

definition fuzzString :: "int \<Rightarrow> jsvalue" where
  "fuzzString n = VStr (number_toString n)"

section \<open>Decimal text, as the specification words it\<close>

text \<open>
  The decimal text form of an integer, read off the specification: a string of decimal
  digits without a leading zero (the single digit 0 apart), whose positional value is the
  magnitude, preceded by a minus sign exactly for a negative integer.
\<close>

definition is_digit :: "char \<Rightarrow> bool" where
  "is_digit c = ((48::nat) \<le> of_char c \<and> of_char c \<le> (57::nat))"

definition digits_value :: "string \<Rightarrow> nat" where
  "digits_value s = foldl (\<lambda>a c. 10 * a + (of_char c - 48)) 0 s"

definition decimal_digits_of :: "string \<Rightarrow> nat \<Rightarrow> bool" where
  "decimal_digits_of s m =
     (s \<noteq> [] \<and> list_all is_digit s \<and> (hd s = CHR ''0'' \<longrightarrow> s = ''0'') \<and> digits_value s = m)"

definition decimal_text_of :: "string \<Rightarrow> int \<Rightarrow> bool" where
  "decimal_text_of s n =
     (if n < 0 then s \<noteq> [] \<and> hd s = CHR ''-'' \<and> decimal_digits_of (tl s) (nat (- n))
      else decimal_digits_of s (nat n))"

section \<open>Descriptors, compiled generators and rule definitions\<close>

text \<open>
  A descriptor is an io-ts codec. The embedding keeps the fields the rules and the
  registry read: \<^verbatim>\<open>_tag\<close>, \<^verbatim>\<open>name\<close>, \<^verbatim>\<open>props\<close> (the own properties of the
  \<^verbatim>\<open>props\<close> object of an interface or partial codec, in enumeration order) and
  \<^verbatim>\<open>types\<close> (the branches of a union).
\<close>

datatype codec =
  Codec (tag: string) (name: string) (props: "(string \<times> codec) list") (types: "codec list")

text \<open>
  A compiled child is an object with an \<^verbatim>\<open>encode(n)\<close> method. The method is a JavaScript
  function supplied from outside the rule, so it may throw and may have effects: it maps
  the seed and the state of the world to a result and the state it leaves.
\<close>

type_synonym 's encoder = "int \<Rightarrow> 's \<Rightarrow> (error + jsvalue) \<times> 's"

text \<open>
  A function that returns \<open>f n\<close> without an effect and without throwing; the leaf rules
  of the sources are such functions.
\<close>

definition js_fun :: "(int \<Rightarrow> jsvalue) \<Rightarrow> 's encoder" where
  "js_fun f n s = (Inr (f n), s)"

record 's ConcreteFuzzer =
  children :: "codec list"
  func :: "int \<Rightarrow> 's encoder list \<Rightarrow> 's \<Rightarrow> (error + jsvalue) \<times> 's"

datatype 's impl =
    FuzzerImpl "'s encoder"
  | GeneratorImpl "codec \<Rightarrow> 's ConcreteFuzzer"

datatype idType = TagId | NameId

record 's Fuzzer =
  impl :: "'s impl"
  id' :: string
  idType :: idType

definition concrete :: "'s encoder \<Rightarrow> string \<Rightarrow> 's Fuzzer" where
  "concrete f t = \<lparr>impl = FuzzerImpl f, id' = t, idType = TagId\<rparr>"

definition gen :: "(codec \<Rightarrow> 's ConcreteFuzzer) \<Rightarrow> string \<Rightarrow> 's Fuzzer" where
  "gen f t = \<lparr>impl = GeneratorImpl f, id' = t, idType = TagId\<rparr>"

text \<open>
  A child that returns \<open>f n\<close> and leaves a trace of the call: the world is the list of
  the positions of the children called so far.
\<close>

definition recording :: "nat \<Rightarrow> (int \<Rightarrow> jsvalue) \<Rightarrow> nat list encoder" where
  "recording i f n calls = (Inr (f n), calls @ [i])"

section \<open>Objects and iteration\<close>

text \<open>
  The own properties of an ordinary object are enumerated with the array indices first,
  in ascending numeric order, and the other names after them, in the order in which
  they were created. An array index is a name that is the canonical decimal numeral of
  an integer below \<open>2 ^ 32 - 1\<close>.
\<close>

definition array_index :: "string \<Rightarrow> nat option" where
  "array_index k =
     (if k \<noteq> [] \<and> list_all is_digit k \<and> (if hd k = CHR ''0'' then length k = 1 else True) \<and>
         int (digits_value k) < 2 ^ 32 - 1
      then Some (digits_value k) else None)"

text \<open>Whether a property named \<open>a\<close>, already there, is enumerated before a new one named \<open>b\<close>.\<close>

definition key_before :: "string \<Rightarrow> string \<Rightarrow> bool" where
  "key_before a b =
     (case array_index b of
        None \<Rightarrow> True
      | Some j \<Rightarrow> (case array_index a of None \<Rightarrow> False | Some i \<Rightarrow> i < j))"

text \<open>
  The result of \<^verbatim>\<open>Object.getOwnPropertyNames\<close> on an ordinary object: no name twice, and
  the names in enumeration order.
\<close>

definition own_property_names :: "string list \<Rightarrow> bool" where
  "own_property_names ks \<longleftrightarrow> distinct ks \<and> sorted_wrt key_before ks"

text \<open>
  \<^verbatim>\<open>ret[k] = v\<close> on an object without prototype: an existing own property keeps its place
  and takes the new value; a new property takes its place in the enumeration order,
  after the properties that are enumerated before it.
\<close>

definition obj_set :: "(string \<times> jsvalue) list \<Rightarrow> string \<Rightarrow> jsvalue \<Rightarrow> (string \<times> jsvalue) list" where
  "obj_set ps k v =
     (if k \<in> fst ` set ps then map (\<lambda>p. if fst p = k then (k, v) else p) ps
      else takeWhile (\<lambda>p. key_before (fst p) k) ps @ (k, v) # dropWhile (\<lambda>p. key_before (fst p) k) ps)"

text \<open>
  \<^verbatim>\<open>keys[i]\<close> used as a property name: past the end of the array it is \<^verbatim>\<open>undefined\<close>,
  which names the property \<^verbatim>\<open>"undefined"\<close>.
\<close>

definition js_key :: "string list \<Rightarrow> nat \<Rightarrow> string" where
  "js_key keys i = (if i < length keys then keys ! i else ''undefined'')"

text \<open>
  \<^verbatim>\<open>h.forEach((v, i) => ...)\<close> from index \<open>i\<close> on. The callback works on the object \<open>ret\<close>
  it closes over and on the world; an exception in the callback ends the iteration.
\<close>

fun forEach ::
  "'a list \<Rightarrow> ('a \<Rightarrow> nat \<Rightarrow> 'r \<Rightarrow> 's \<Rightarrow> (error + 'r) \<times> 's) \<Rightarrow> nat \<Rightarrow> 'r \<Rightarrow> 's \<Rightarrow> (error + 'r) \<times> 's"
where
  "forEach [] cb i ret s = (Inr ret, s)"
| "forEach (v # vs) cb i ret s =
     (case cb v i ret s of
        (Inl e, s') \<Rightarrow> (Inl e, s')
      | (Inr ret', s') \<Rightarrow> forEach vs cb (Suc i) ret' s')"

text \<open>
  \<^verbatim>\<open>n & (2 ** i)\<close>: both operands are converted to 32-bit two's complement integers
  (the value modulo \<open>2 ^ 32\<close>; \<^verbatim>\<open>2 ** i\<close> is a power of two or, from \<open>i = 1024\<close> on,
  Infinity, and converts to 0 from \<open>i = 32\<close> on either way), and the result is the signed
  reading of their bitwise conjunction.
\<close>

definition js_bitand :: "int \<Rightarrow> int \<Rightarrow> int" where
  "js_bitand a b = sint ((word_of_int a :: 32 word) AND word_of_int b)"

section \<open>Composite rules\<close>

definition fuzzUnion :: "codec \<Rightarrow> 's ConcreteFuzzer" where
  "fuzzUnion b =
     \<lparr>children = types b,
      func = (\<lambda>n h s.
        case js_index h (js_rem n (int (length h))) of
          None \<Rightarrow> (Inl TypeError, s)
        | Some v \<Rightarrow> v n s)\<rparr>"

definition fuzzInterface :: "codec \<Rightarrow> 's ConcreteFuzzer" where
  "fuzzInterface b =
     (let keys = map fst (props b);
          vals = map (\<lambda>k. the (map_of (props b) k)) keys
      in \<lparr>children = vals,
          func = (\<lambda>n h s.
            case forEach h
                   (\<lambda>v i ret s.
                      case v n s of
                        (Inl e, s') \<Rightarrow> (Inl e, s')
                      | (Inr x, s') \<Rightarrow> (Inr (obj_set ret (js_key keys i) x), s'))
                   0 [] s of
              (Inl e, s') \<Rightarrow> (Inl e, s')
            | (Inr ret, s') \<Rightarrow> (Inr (VObj ret), s'))\<rparr>)"

definition fuzzPartial :: "codec \<Rightarrow> 's ConcreteFuzzer" where
  "fuzzPartial b =
     (let keys = map fst (props b);
          vals = map (\<lambda>k. the (map_of (props b) k)) keys
      in \<lparr>children = vals,
          func = (\<lambda>n h s.
            case forEach h
                   (\<lambda>v i ret s.
                      if js_bitand n (2 ^ i) \<noteq> 0 then
                        (case v n s of
                           (Inl e, s') \<Rightarrow> (Inl e, s')
                         | (Inr x, s') \<Rightarrow> (Inr (obj_set ret (js_key keys i) x), s'))
                      else (Inr ret, s))
                   0 [] s of
              (Inl e, s') \<Rightarrow> (Inl e, s')
            | (Inr ret, s') \<Rightarrow> (Inr (VObj ret), s'))\<rparr>)"

definition coreFuzzers :: "'s Fuzzer list" where
  "coreFuzzers =
     [concrete (js_fun fuzzNumber) ''NumberType'',
      concrete (js_fun fuzzBoolean) ''BooleanType'',
      concrete (js_fun fuzzString) ''StringType'',
      gen fuzzUnion ''UnionType'',
      gen fuzzInterface ''InterfaceType'',
      gen fuzzPartial ''PartialType'']"

section \<open>The registry\<close>

text \<open>
  The registry module is not among the sources; only its callers are (the tests of
  \<^verbatim>\<open>createRegistry\<close>, \<^verbatim>\<open>register\<close> and \<^verbatim>\<open>getFuzzer\<close>). The definitions of this
  section follow the specification's description of registration and lookup. A registry is an object that is updated in place and handed around
  by reference: the heap lists the rule maps of the registries created so far, and a
  registry is its position in the heap.
\<close>

type_synonym 's rules = "idType \<times> string \<Rightarrow> 's Fuzzer option"

type_synonym 's heap = "'s rules list"

text \<open>
  Modelled from the spec: storing one definition under its resolved key (the kind of id
  and the id), which the absent \<^verbatim>\<open>register\<close> does for each argument; a definition
  already stored under the key is replaced.
\<close>

definition store_rule :: "'s rules \<Rightarrow> 's Fuzzer \<Rightarrow> 's rules" where
  "store_rule m f = m((idType f, id' f) \<mapsto> f)"

text \<open>
  Modelled from the spec: the resolution order of the absent \<^verbatim>\<open>getFuzzer\<close>: the
  definition keyed by the descriptor's name if there is one, otherwise the definition
  keyed by its tag, otherwise none.
\<close>

definition lookup_rule :: "'s rules \<Rightarrow> codec \<Rightarrow> 's Fuzzer option" where
  "lookup_rule m b =
     (case m (NameId, name b) of
        Some f \<Rightarrow> Some f
      | None \<Rightarrow> m (TagId, tag b))"

text \<open>Modelled from the spec: the absent \<^verbatim>\<open>createRegistry\<close>, a new registry without rules.\<close>

definition createRegistry :: "'s heap \<Rightarrow> nat \<times> 's heap" where
  "createRegistry H = (length H, H @ [Map.empty])"

text \<open>
  Modelled from the spec: the absent \<^verbatim>\<open>register(...defs)\<close>, which stores the definitions
  in argument order and returns the registry it was called on.
\<close>

definition register :: "nat \<Rightarrow> 's Fuzzer list \<Rightarrow> 's heap \<Rightarrow> nat \<times> 's heap" where
  "register r defs H = (r, if r < length H then H[r := foldl store_rule (H ! r) defs] else H)"

text \<open>Modelled from the spec: the absent \<^verbatim>\<open>getFuzzer(descriptor)\<close> of a registry.\<close>

definition getFuzzer :: "nat \<Rightarrow> codec \<Rightarrow> 's heap \<Rightarrow> 's Fuzzer option" where
  "getFuzzer r b H = (if r < length H then lookup_rule (H ! r) b else None)"

section \<open>Notions used to state the properties\<close>

text \<open>
  The children of a rule applied one after the other to the same seed, each in the world
  the previous one left; the first exception ends the run.
\<close>

fun encode_all :: "int \<Rightarrow> 's encoder list \<Rightarrow> 's \<Rightarrow> (error + jsvalue list) \<times> 's" where
  "encode_all n [] s = (Inr [], s)"
| "encode_all n (v # vs) s =
     (case v n s of
        (Inl e, s') \<Rightarrow> (Inl e, s')
      | (Inr x, s') \<Rightarrow>
          (case encode_all n vs s' of
             (Inl e, s'') \<Rightarrow> (Inl e, s'')
           | (Inr xs, s'') \<Rightarrow> (Inr (x # xs), s'')))"

text \<open>The entries of a list whose positions, counted from \<open>i\<close>, satisfy \<open>P\<close>.\<close>

fun select_from :: "(nat \<Rightarrow> bool) \<Rightarrow> nat \<Rightarrow> 'a list \<Rightarrow> 'a list" where
  "select_from P i [] = []"
| "select_from P i (x # xs) = (if P i then x # select_from P (Suc i) xs else select_from P (Suc i) xs)"

text \<open>The own property names of a value, in enumeration order.\<close>

fun own_keys :: "jsvalue \<Rightarrow> string list" where
  "own_keys (VObj ps) = map fst ps"
| "own_keys _ = []"

section \<open>Descriptors used as examples\<close>

definition number_codec :: codec where
  "number_codec = Codec ''NumberType'' ''number'' [] []"

definition string_codec :: codec where
  "string_codec = Codec ''StringType'' ''string'' [] []"

definition boolean_codec :: codec where
  "boolean_codec = Codec ''BooleanType'' ''boolean'' [] []"

text \<open>\<^verbatim>\<open>t.union([t.number, t.string])\<close>\<close>

definition number_or_string :: codec where
  "number_or_string = Codec ''UnionType'' ''(number | string)'' [] [number_codec, string_codec]"

text \<open>\<^verbatim>\<open>t.type({ a: t.number, j: t.boolean })\<close>\<close>

definition type_a_j :: codec where
  "type_a_j =
     Codec ''InterfaceType'' ''{ a: number, j: boolean }''
       [(''a'', number_codec), (''j'', boolean_codec)] []"

text \<open>A partial codec with the 33 number properties \<^verbatim>\<open>p0\<close>, ..., \<^verbatim>\<open>p32\<close>.\<close>

definition partial33 :: codec where
  "partial33 =
     Codec ''PartialType'' ''Partial33''
       (map (\<lambda>i. (CHR ''p'' # int_digits (int i), number_codec)) [0..<33]) []"

text \<open>\<^verbatim>\<open>t.partial({ a: t.number, b: t.string })\<close>\<close>

definition partial_a_b :: codec where
  "partial_a_b =
     Codec ''PartialType'' ''Partial<{ a: number, b: string }>''
       [(''a'', number_codec), (''b'', string_codec)] []"

text \<open>
  The two rules for the tag \<^verbatim>\<open>StringType\<close> that the registry tests register one over the
  other: the seed after \<^verbatim>\<open>Hello\<close> and after \<^verbatim>\<open>Bye\<close>.
\<close>

definition fuzzStr1 :: "'s Fuzzer" where
  "fuzzStr1 =
     \<lparr>impl = FuzzerImpl (js_fun (\<lambda>n. VStr (''Hello '' @ number_toString n))),
      id' = ''StringType'', idType = TagId\<rparr>"

definition fuzzStr2 :: "'s Fuzzer" where
  "fuzzStr2 =
     \<lparr>impl = FuzzerImpl (js_fun (\<lambda>n. VStr (''Bye '' @ number_toString n))),
      id' = ''StringType'', idType = TagId\<rparr>"

section \<open>Leaf rules: proofs\<close>

lemma js_rem_two: "js_rem n 2 = Some 0 \<longleftrightarrow> even n"
proof -
  have "sgn n * (\<bar>n\<bar> mod 2) = 0 \<longleftrightarrow> even n"
    by (cases "n = 0") (auto simp: sgn_if even_iff_mod_2_eq_zero)
  then show ?thesis by (simp add: js_rem_def)
qed

lemma of_char_digit_char: "d < 10 \<Longrightarrow> of_char (digit_char d) = 48 + d"
  by (simp add: digit_char_def)

lemma is_digit_digit_char: "d < 10 \<Longrightarrow> is_digit (digit_char d)"
  by (simp add: is_digit_def of_char_digit_char)

lemma int_digits_nonempty: "int_digits x \<noteq> []"
  by (subst int_digits.simps) simp

lemma int_digits_all_digits: "0 \<le> x \<Longrightarrow> list_all is_digit (int_digits x)"
proof (induction x rule: int_digits.induct)
  case (1 x)
  show ?case
  proof (cases "x < 10")
    case True
    with "1.prems" have "nat x < 10" by simp
    with True show ?thesis
      by (subst int_digits.simps) (simp add: is_digit_digit_char)
  next
    case False
    with 1 have "list_all is_digit (int_digits (x div 10))" by simp
    moreover have "nat (x mod 10) < 10" by simp
    then have "is_digit (digit_char (nat (x mod 10)))" by (rule is_digit_digit_char)
    ultimately show ?thesis using False
      by (subst int_digits.simps) simp
  qed
qed

lemma digits_value_snoc:
  "digits_value (s @ [c]) = 10 * digits_value s + (of_char c - 48)"
  by (simp add: digits_value_def)

lemma int_digits_value: "0 \<le> x \<Longrightarrow> digits_value (int_digits x) = nat x"
proof (induction x rule: int_digits.induct)
  case (1 x)
  show ?case
  proof (cases "x < 10")
    case True
    with "1.prems" have "nat x < 10" by simp
    with True show ?thesis
      by (subst int_digits.simps) (simp add: digits_value_def of_char_digit_char)
  next
    case False
    with 1 have "digits_value (int_digits (x div 10)) = nat (x div 10)" by simp
    moreover have "nat (x mod 10) < 10" by simp
    moreover have "10 * nat (x div 10) + nat (x mod 10) = nat x"
    proof -
      have "int (10 * nat (x div 10) + nat (x mod 10)) = 10 * (x div 10) + x mod 10"
        using "1.prems" by (simp add: pos_imp_zdiv_nonneg_iff)
      also have "\<dots> = x" by simp
      finally show ?thesis by linarith
    qed
    ultimately show ?thesis using False
      by (subst int_digits.simps) (simp add: digits_value_snoc of_char_digit_char)
  qed
qed

lemma digit_char_zero_iff: "d < 10 \<Longrightarrow> digit_char d = CHR ''0'' \<longleftrightarrow> d = 0"
proof -
  assume d: "d < 10"
  have "digit_char d = CHR ''0'' \<longleftrightarrow> (of_char (digit_char d) :: nat) = of_char (CHR ''0'')"
    by (simp only: of_char_eq_iff)
  also have "\<dots> \<longleftrightarrow> d = 0" using d by (simp add: of_char_digit_char)
  finally show ?thesis .
qed

lemma hd_int_digits_zero: "0 \<le> x \<Longrightarrow> hd (int_digits x) = CHR ''0'' \<Longrightarrow> x = 0"
proof (induction x rule: int_digits.induct)
  case (1 x)
  show ?case
  proof (cases "x < 10")
    case True
    with "1.prems"(1) have "nat x < 10" by simp
    with True "1.prems" show ?thesis
      by (subst (asm) int_digits.simps) (simp add: digit_char_zero_iff)
  next
    case False
    with "1.prems"(2) have "hd (int_digits (x div 10)) = CHR ''0''"
      by (subst (asm) int_digits.simps) (simp add: int_digits_nonempty)
    with 1 False have "x div 10 = 0" by simp
    with False "1.prems"(1) show ?thesis by simp
  qed
qed

lemma char_of_48: "char_of (48::nat) = CHR ''0''"
  by code_simp

lemma int_digits_zero: "int_digits 0 = ''0''"
  by (subst int_digits.simps) (simp add: digit_char_def char_of_48)

lemma int_digits_decimal: "0 \<le> x \<Longrightarrow> decimal_digits_of (int_digits x) (nat x)"
proof -
  assume x: "0 \<le> x"
  have "hd (int_digits x) = CHR ''0'' \<longrightarrow> int_digits x = ''0''"
    using hd_int_digits_zero [OF x] int_digits_zero by auto
  then show ?thesis
    by (simp add: decimal_digits_of_def int_digits_nonempty int_digits_all_digits [OF x]
        int_digits_value [OF x])
qed

lemma number_toString_examples:
  "number_toString (2 ^ 53 - 1) = ''9007199254740991''"
  "number_toString (2 ^ 53) = ''9007199254740992''"
  "number_toString (2 ^ 60) = ''1152921504606847000''"
  "number_toString (- (2 ^ 70)) = ''-1.1805916207174113e+21''"
  "number_toString (10 ^ 22) = ''1e+22''"
  by code_simp+

lemma number_toString_safe:
  "isSafeInteger n \<Longrightarrow>
     number_toString n = (if n < 0 then CHR ''-'' # int_digits (- n) else int_digits n)"
proof -
  assume "isSafeInteger n"
  then have "n < 2 ^ 53" and "- n < 2 ^ 53" by (simp_all add: isSafeInteger_def)
  then show ?thesis by (simp add: number_toString_def magnitude_toString_def)
qed

lemma number_toString_decimal: "isSafeInteger n \<Longrightarrow> decimal_text_of (number_toString n) n"
  by (simp add: number_toString_safe decimal_text_of_def int_digits_decimal)

text \<open>
  Claim C5, as it holds of the code. For an integer seed \<open>n\<close>: the number rule returns
  \<open>n\<close> unchanged; the boolean rule returns true if and only if \<open>n\<close> is even; for a safe
  integer \<open>n\<close> the string rule returns the decimal text form of \<open>n\<close>.
\<close>

theorem core_leaf_rules:
  "fuzzNumber n = VNum n \<and>
   fuzzBoolean n = VBool (even n) \<and>
   (isSafeInteger n \<longrightarrow> (\<exists>s. fuzzString n = VStr s \<and> decimal_text_of s n))"
  by (simp add: fuzzNumber_def fuzzBoolean_def fuzzString_def js_rem_two
      number_toString_decimal)

theorem core_leaf_rules_witness:
  "fuzzNumber (- 42) = VNum (- 42) \<and>
   fuzzBoolean (- 42) = VBool True \<and>
   isSafeInteger (- 42) \<and>
   fuzzString (- 42) = VStr ''-42'' \<and> decimal_text_of ''-42'' (- 42)"
proof -
  have s: "isSafeInteger (- 42)" by (simp add: isSafeInteger_def)
  have e: "fuzzString (- 42) = VStr ''-42''" by code_simp
  from core_leaf_rules [of "- 42"] s e show ?thesis by simp
qed

text \<open>
  Claim C5 as stated covers every integer seed. The Numbers \<open>2 ^ 64\<close> and \<open>10 ^ 21\<close> are
  integer seeds; for the first the string rule returns \<^verbatim>\<open>18446744073709552000\<close>, which
  is the decimal text of another integer, and for the second \<^verbatim>\<open>1e+21\<close>, which is not a
  string of decimal digits.
\<close>

theorem fuzzString_large_seed_counterexample:
  "is_Number (2 ^ 64) \<and>
   fuzzString (2 ^ 64) = VStr ''18446744073709552000'' \<and>
   \<not> decimal_text_of ''18446744073709552000'' (2 ^ 64) \<and>
   is_Number (10 ^ 21) \<and>
   fuzzString (10 ^ 21) = VStr ''1e+21'' \<and>
   \<not> decimal_text_of ''1e+21'' (10 ^ 21)"
proof -
  have a: "is_Number (2 ^ 64)" by code_simp
  have b: "fuzzString (2 ^ 64) = VStr ''18446744073709552000''" by code_simp
  have c: "digits_value ''18446744073709552000'' = 18446744073709552000"
    by (simp add: digits_value_def)
  have d: "\<not> decimal_text_of ''18446744073709552000'' (2 ^ 64)"
    by (simp add: decimal_text_of_def decimal_digits_of_def c)
  have e: "is_Number (10 ^ 21)" by code_simp
  have f: "fuzzString (10 ^ 21) = VStr ''1e+21''" by code_simp
  have g: "\<not> decimal_text_of ''1e+21'' (10 ^ 21)"
    by (simp add: decimal_text_of_def decimal_digits_of_def is_digit_def)
  from a b d e f g show ?thesis by blast
qed

section \<open>Remainder, indexing and the 32-bit conjunction\<close>

lemma js_rem_nonneg: "0 \<le> n \<Longrightarrow> 0 < b \<Longrightarrow> js_rem n b = Some (n mod b)"
  by (simp add: js_rem_def sgn_if)

lemma js_rem_negative:
  assumes "n < 0" "0 < b" "\<not> b dvd n"
  shows "\<exists>r. js_rem n b = Some r \<and> r < 0"
proof -
  have "\<bar>n\<bar> mod b \<noteq> 0" using assms by (simp add: mod_eq_0_iff_dvd)
  moreover have "0 \<le> \<bar>n\<bar> mod b" using assms by simp
  ultimately have "0 < \<bar>n\<bar> mod b" by linarith
  then show ?thesis using assms by (simp add: js_rem_def sgn_if)
qed

lemma obj_set_array_index_first:
  "obj_set [(''3'', VNum 0), (''b'', VNum 1)] ''12'' (VNum 2)
     = [(''3'', VNum 0), (''12'', VNum 2), (''b'', VNum 1)]"
  by code_simp

lemma obj_set_fresh:
  assumes "k \<notin> fst ` set ps" and "\<forall>p \<in> set ps. key_before (fst p) k"
  shows "obj_set ps k v = ps @ [(k, v)]"
proof -
  have "takeWhile (\<lambda>p. key_before (fst p) k) ps = ps"
    using assms(2) by (simp add: takeWhile_eq_all_conv)
  moreover have "dropWhile (\<lambda>p. key_before (fst p) k) ps = []"
    using assms(2) by simp
  ultimately show ?thesis using assms(1) by (simp add: obj_set_def)
qed

lemma own_property_names_before:
  assumes "own_property_names keys" and "i < length keys" and "k \<in> set (take i keys)"
  shows "key_before k (keys ! i)"
proof -
  from assms(3) obtain j where j: "j < i" "j < length keys" "k = keys ! j"
    using assms(2) by (auto simp: in_set_conv_nth)
  from assms(1) have "sorted_wrt key_before keys" by (simp add: own_property_names_def)
  with j assms(2) show ?thesis by (simp add: sorted_wrt_iff_nth_less)
qed

lemma own_property_names_distinct: "own_property_names keys \<Longrightarrow> distinct keys"
  by (simp add: own_property_names_def)

lemma forEach_select:
  assumes "own_property_names keys" "i + length h = length keys" "fst ` set ret \<subseteq> set (take i keys)"
  shows "forEach h
           (\<lambda>v i ret s.
              if P i then
                (case v n s of
                   (Inl e, s') \<Rightarrow> (Inl e, s')
                 | (Inr x, s') \<Rightarrow> (Inr (obj_set ret (js_key keys i) x), s'))
              else (Inr ret, s))
           i ret s =
         (case encode_all n (select_from P i h) s of
            (Inl e, s') \<Rightarrow> (Inl e, s')
          | (Inr vs, s') \<Rightarrow> (Inr (ret @ zip (select_from P i (drop i keys)) vs), s'))"
  using assms
proof (induction h arbitrary: i ret s)
  case Nil
  then show ?case by simp
next
  case (Cons v vs)
  from Cons.prems have i: "i < length keys" by simp
  then have dr: "drop i keys = keys ! i # drop (Suc i) keys"
    by (simp add: Cons_nth_drop_Suc)
  have fresh: "keys ! i \<notin> set (take i keys)"
    using own_property_names_distinct [OF Cons.prems(1)] i
    by (metis distinct_take id_take_nth_drop not_distinct_conv_prefix)
  have len: "Suc i + length vs = length keys" using Cons.prems by simp
  show ?case
  proof (cases "P i")
    case False
    have sub: "fst ` set ret \<subseteq> set (take (Suc i) keys)"
      using Cons.prems(3) by (auto simp: take_Suc_conv_app_nth [OF i])
    have sel: "select_from P i (drop i keys) = select_from P (Suc i) (drop (Suc i) keys)"
      using False by (subst dr) simp
    show ?thesis
      unfolding sel using Cons.IH [OF Cons.prems(1) len sub, of s] False
      by simp
  next
    case True
    show ?thesis
    proof (cases "v n s")
      case (Pair r s1)
      show ?thesis
      proof (cases r)
        case (Inl e)
        with Pair True show ?thesis by simp
      next
        case (Inr x)
        have k: "keys ! i \<notin> fst ` set ret" using fresh Cons.prems(3) by auto
        have bef: "\<forall>p \<in> set ret. key_before (fst p) (keys ! i)"
          using own_property_names_before [OF Cons.prems(1) i] Cons.prems(3) by auto
        have sub: "fst ` set (ret @ [(keys ! i, x)]) \<subseteq> set (take (Suc i) keys)"
          using Cons.prems(3) by (auto simp: take_Suc_conv_app_nth [OF i])
        have sel: "select_from P i (drop i keys) = keys ! i # select_from P (Suc i) (drop (Suc i) keys)"
          using True by (subst dr) simp
        show ?thesis
          unfolding sel using Cons.IH [OF Cons.prems(1) len sub, of s1] Pair Inr True i
          by (simp add: js_key_def obj_set_fresh [OF k bef] split: prod.splits sum.splits)
      qed
    qed
  qed
qed


lemma js_bitand_pow2: "js_bitand n (2 ^ i) \<noteq> 0 \<longleftrightarrow> i < 32 \<and> bit n i"
proof -
  have "js_bitand n (2 ^ i) \<noteq> 0 \<longleftrightarrow> (word_of_int n :: 32 word) AND 2 ^ i \<noteq> 0"
    by (simp add: js_bitand_def word_of_int_2p signed_eq_0_iff)
  also have "\<dots> \<longleftrightarrow> bit (word_of_int n :: 32 word) i"
    by (simp add: and_exp_eq_0_iff_not_bit)
  also have "\<dots> \<longleftrightarrow> i < 32 \<and> bit n i"
    by (simp add: bit_word_of_int_iff)
  finally show ?thesis .
qed

lemma select_from_True: "select_from (\<lambda>_. True) i xs = xs"
  by (induction xs arbitrary: i) auto

lemma select_from_map: "select_from P i (map f xs) = map f (select_from P i xs)"
  by (induction xs arbitrary: i) auto

lemma length_select_from:
  "length xs = length ys \<Longrightarrow> length (select_from P i xs) = length (select_from P i ys)"
  by (induction xs ys arbitrary: i rule: list_induct2) auto

lemma set_select_from_subset: "set (select_from P i xs) \<subseteq> set xs"
  by (induction xs arbitrary: i) auto

lemma nth_mem_select_from:
  "distinct xs \<Longrightarrow> j < length xs \<Longrightarrow> xs ! j \<in> set (select_from P i xs) \<longleftrightarrow> P (i + j)"
proof (induction xs arbitrary: i j)
  case Nil
  then show ?case by simp
next
  case (Cons x xs)
  show ?case
  proof (cases j)
    case 0
    have "x \<notin> set (select_from P (Suc i) xs)"
      using Cons.prems(1) set_select_from_subset [of P "Suc i" xs] by auto
    with 0 show ?thesis by simp
  next
    case (Suc k)
    with Cons.prems have k: "k < length xs" and d: "distinct xs" and ne: "xs ! k \<noteq> x"
      by auto
    from Cons.IH [OF d k, of "Suc i"] Suc ne show ?thesis by simp
  qed
qed

lemma encode_all_length: "encode_all n h s = (Inr vs, s') \<Longrightarrow> length vs = length h"
  by (induction h arbitrary: s vs) (auto split: prod.splits sum.splits)

lemma encode_all_js_fun: "encode_all n (map js_fun fs) s = (Inr (map (\<lambda>f. f n) fs), s)"
  by (induction fs) (auto simp: js_fun_def)

lemma vals_props: "distinct (map fst ps) \<Longrightarrow> map (\<lambda>k. the (map_of ps k)) (map fst ps) = map snd ps"
  by (induction ps) (auto simp: rev_image_eqI)

lemma fuzzInterface_func:
  assumes "own_property_names (map fst (props b))" "length h = length (props b)"
  shows "func (fuzzInterface b) n h s =
           (case encode_all n h s of
              (Inl e, s') \<Rightarrow> (Inl e, s')
            | (Inr vs, s') \<Rightarrow> (Inr (VObj (zip (map fst (props b)) vs)), s'))"
proof -
  have "forEach h
          (\<lambda>v i ret s.
             if (\<lambda>_. True) i then
               (case v n s of
                  (Inl e, s') \<Rightarrow> (Inl e, s')
                | (Inr x, s') \<Rightarrow> (Inr (obj_set ret (js_key (map fst (props b)) i) x), s'))
             else (Inr ret, s))
          0 [] s =
        (case encode_all n (select_from (\<lambda>_. True) 0 h) s of
           (Inl e, s') \<Rightarrow> (Inl e, s')
         | (Inr vs, s') \<Rightarrow>
             (Inr ([] @ zip (select_from (\<lambda>_. True) 0 (drop 0 (map fst (props b)))) vs), s'))"
    using assms by (intro forEach_select) simp_all
  then show ?thesis
    by (simp add: fuzzInterface_def Let_def select_from_True split: prod.splits sum.splits)
qed

lemma fuzzPartial_func:
  assumes "own_property_names (map fst (props b))" "length h = length (props b)"
  shows "func (fuzzPartial b) n h s =
           (case encode_all n (select_from (\<lambda>i. i < 32 \<and> bit n i) 0 h) s of
              (Inl e, s') \<Rightarrow> (Inl e, s')
            | (Inr vs, s') \<Rightarrow>
                (Inr (VObj (zip (select_from (\<lambda>i. i < 32 \<and> bit n i) 0 (map fst (props b))) vs)), s'))"
proof -
  have "forEach h
          (\<lambda>v i ret s.
             if (\<lambda>i. i < 32 \<and> bit n i) i then
               (case v n s of
                  (Inl e, s') \<Rightarrow> (Inl e, s')
                | (Inr x, s') \<Rightarrow> (Inr (obj_set ret (js_key (map fst (props b)) i) x), s'))
             else (Inr ret, s))
          0 [] s =
        (case encode_all n (select_from (\<lambda>i. i < 32 \<and> bit n i) 0 h) s of
           (Inl e, s') \<Rightarrow> (Inl e, s')
         | (Inr vs, s') \<Rightarrow>
             (Inr ([] @ zip (select_from (\<lambda>i. i < 32 \<and> bit n i) 0 (drop 0 (map fst (props b)))) vs), s'))"
    using assms by (intro forEach_select) simp_all
  then show ?thesis
    by (simp add: fuzzPartial_def Let_def js_bitand_pow2 split: prod.splits sum.splits)
qed


section \<open>The union rule\<close>

text \<open>
  The seeds on which the remainder \<^verbatim>\<open>n % h.length\<close> is not negative, that is the seeds
  \<open>n \<ge> 0\<close> and the negative multiples of the number of branches: there the rule selects
  the branch of index \<open>n mod b\<close>, and its result and effect are exactly those of one
  call of that branch's \<^verbatim>\<open>encode(n)\<close>; no other branch is called and the value is not
  wrapped.
\<close>

lemma fuzzUnion_in_range:
  fixes h :: "'s encoder list"
  assumes "h \<noteq> []" and "0 \<le> n \<or> int (length h) dvd n"
  shows "children (fuzzUnion b :: 's ConcreteFuzzer) = types b \<and>
         func (fuzzUnion b) n h s = (h ! nat (n mod int (length h))) n s"
proof -
  have pos: "0 < int (length h)" using assms(1) by simp
  have "js_rem n (int (length h)) = Some (n mod int (length h))"
  proof (cases "0 \<le> n")
    case True
    then show ?thesis using pos by (rule js_rem_nonneg)
  next
    case False
    with assms(2) have d: "int (length h) dvd n" by simp
    then have "int (length h) dvd \<bar>n\<bar>" by simp
    then have "\<bar>n\<bar> mod int (length h) = 0" by (simp add: mod_eq_0_iff_dvd)
    moreover from d have "n mod int (length h) = 0" by (simp add: mod_eq_0_iff_dvd)
    ultimately show ?thesis using pos by (simp add: js_rem_def)
  qed
  moreover have "0 \<le> n mod int (length h)" "n mod int (length h) < int (length h)"
    using pos by simp_all
  ultimately have "js_index h (js_rem n (int (length h))) = Some (h ! nat (n mod int (length h)))"
    by (simp add: js_index_def)
  then show ?thesis by (simp add: fuzzUnion_def)
qed

text \<open>
  The branches number and string at the seed 4: the index is 0, the result is the
  number 4, and with children that record their calls the only call recorded is that of
  branch 0.
\<close>

lemma fuzzUnion_seed_4:
  "children (fuzzUnion number_or_string :: nat list ConcreteFuzzer) = [number_codec, string_codec] \<and>
   nat (4 mod int (length [recording 0 fuzzNumber, recording 1 fuzzString])) = 0 \<and>
   func (fuzzUnion number_or_string) 4 [recording 0 fuzzNumber, recording 1 fuzzString] []
     = (Inr (VNum 4), [0])"
  using fuzzUnion_in_range
    [of "[recording 0 fuzzNumber, recording 1 fuzzString]" 4 number_or_string "[]"]
  by (simp add: number_or_string_def recording_def fuzzNumber_def)

text \<open>
  Claim C3 at the seed \<open>-1\<close> and the branches number and string. The claim selects the
  branch of index \<open>-1 mod 2 = 1\<close>, whose generator returns the string \<^verbatim>\<open>"-1"\<close>; the rule
  reads \<^verbatim>\<open>h[-1]\<close>, which is \<^verbatim>\<open>undefined\<close>, and throws a TypeError.
\<close>

theorem fuzzUnion_negative_seed_counterexample:
  "func (fuzzUnion number_or_string) (- 1) [js_fun fuzzNumber, js_fun fuzzString] () = (Inl TypeError, ()) \<and>
   ([js_fun fuzzNumber, js_fun fuzzString] ! nat ((- 1) mod int (length [js_fun fuzzNumber, js_fun fuzzString :: unit encoder]))) (- 1) ()
     = (Inr (VStr ''-1''), ())"
proof -
  have "fuzzString (- 1) = VStr ''-1''" by code_simp
  then show ?thesis
    by (simp add: fuzzUnion_def js_rem_def js_index_def js_fun_def)
qed

text \<open>
  Claim C10. For a union with at least two branches and a negative seed that is not a
  multiple of the number of branches, the remainder \<^verbatim>\<open>n % h.length\<close> is negative, the
  array has no element at that index, and encoding throws instead of returning a value.
\<close>

theorem fuzzUnion_negative_seed_fails:
  assumes "2 \<le> length h" and "n < 0" and "\<not> int (length h) dvd n"
  shows "(\<exists>r. js_rem n (int (length h)) = Some r \<and> r < 0 \<and> js_index h (Some r) = None) \<and>
         func (fuzzUnion b) n h s = (Inl TypeError, s)"
proof -
  have pos: "0 < int (length h)" using assms(1) by (cases h) auto
  from js_rem_negative [OF assms(2) pos assms(3)]
  obtain r where r: "js_rem n (int (length h)) = Some r" "r < 0" by blast
  then have "js_index h (Some r) = None" by (simp add: js_index_def)
  with r show ?thesis by (simp add: fuzzUnion_def)
qed

theorem fuzzUnion_negative_seed_fails_witness:
  "2 \<le> length [js_fun fuzzNumber, js_fun fuzzString :: unit encoder] \<and> (- 3 :: int) < 0 \<and>
   \<not> int (length [js_fun fuzzNumber, js_fun fuzzString :: unit encoder]) dvd (- 3) \<and>
   js_rem (- 3) 2 = Some (- 1) \<and>
   func (fuzzUnion number_or_string) (- 3) [js_fun fuzzNumber, js_fun fuzzString] () = (Inl TypeError, ())"
  using fuzzUnion_negative_seed_fails [of "[js_fun fuzzNumber, js_fun fuzzString :: unit encoder]" "- 3" number_or_string "()"]
  by (simp add: js_rem_def)

section \<open>The object rules\<close>

lemma the_map_of: "distinct (map fst ps) \<Longrightarrow> (k, v) \<in> set ps \<Longrightarrow> the (map_of ps k) = v"
  by simp

lemma fuzzInterface_children:
  "distinct (map fst (props b)) \<Longrightarrow> children (fuzzInterface b) = map snd (props b)"
  by (auto simp: fuzzInterface_def Let_def the_map_of)

lemma result_of_values:
  assumes F: "r = (case encode_all n h s of
                     (Inl e, s') \<Rightarrow> (Inl e, s')
                   | (Inr vs, s') \<Rightarrow> (Inr (VObj (zip ks vs)), s'))"
  shows "r = (Inr v, s') \<longleftrightarrow> (\<exists>vs. encode_all n h s = (Inr vs, s') \<and> v = VObj (zip ks vs))"
proof (cases "encode_all n h s")
  case (Pair x s1)
  show ?thesis
  proof (cases x)
    case (Inl e)
    with Pair F show ?thesis by simp
  next
    case (Inr ws)
    with Pair F show ?thesis by auto
  qed
qed

text \<open>
  Claim C4. For a required-fields descriptor (its property names being the own property
  names of an object) and the compiled children \<open>h\<close> of its properties, the rule declares the
  property codecs as children, and it returns a value exactly when every child returns
  one for the seed \<open>n\<close>; the value is then the object that holds every declared property,
  in declaration order, each with the value its own child returned for \<open>n\<close>.
\<close>

theorem fuzzInterface_all_properties:
  fixes h :: "'s encoder list"
  assumes "own_property_names (map fst (props b))" and "length h = length (props b)"
  shows "children (fuzzInterface b :: 's ConcreteFuzzer) = map snd (props b) \<and>
         (func (fuzzInterface b) n h s = (Inr v, s') \<longleftrightarrow>
            (\<exists>vs. encode_all n h s = (Inr vs, s') \<and> length vs = length (props b) \<and>
                  v = VObj (zip (map fst (props b)) vs))) \<and>
         (func (fuzzInterface b) n h s = (Inr v, s') \<longrightarrow> own_keys v = map fst (props b)) \<and>
         (\<forall>fs. length fs = length (props b) \<longrightarrow>
            func (fuzzInterface b) n (map js_fun fs) s
              = (Inr (VObj (zip (map fst (props b)) (map (\<lambda>f. f n) fs))), s))"
proof -
  have len: "length vs = length (props b)" if "encode_all n h s = (Inr vs, s')" for vs
    using encode_all_length [OF that] assms(2) by simp
  have eq: "func (fuzzInterface b) n h s = (Inr v, s') \<longleftrightarrow>
            (\<exists>vs. encode_all n h s = (Inr vs, s') \<and> length vs = length (props b) \<and>
                  v = VObj (zip (map fst (props b)) vs))"
    using result_of_values [OF fuzzInterface_func [OF assms, of n s], of v s'] len by blast
  have keys: "own_keys v = map fst (props b)" if "func (fuzzInterface b) n h s = (Inr v, s')"
  proof -
    from that eq obtain vs where "length vs = length (props b)"
      and "v = VObj (zip (map fst (props b)) vs)" by blast
    then show ?thesis by simp
  qed
  have pure: "func (fuzzInterface b) n (map js_fun fs) s
                = (Inr (VObj (zip (map fst (props b)) (map (\<lambda>f. f n) fs))), s)"
    if "length fs = length (props b)" for fs
    using that by (simp add: fuzzInterface_func [OF assms(1)] encode_all_js_fun)
  from eq keys pure fuzzInterface_children [OF own_property_names_distinct [OF assms(1)]] show ?thesis by blast
qed


theorem fuzzInterface_all_properties_witness:
  "own_property_names (map fst (props type_a_j)) \<and>
   length [js_fun fuzzNumber, js_fun fuzzBoolean :: unit encoder] = length (props type_a_j) \<and>
   children (fuzzInterface type_a_j :: unit ConcreteFuzzer) = [number_codec, boolean_codec] \<and>
   encode_all 5 [js_fun fuzzNumber, js_fun fuzzBoolean] () = (Inr [VNum 5, VBool False], ()) \<and>
   func (fuzzInterface type_a_j) 5 [js_fun fuzzNumber, js_fun fuzzBoolean] ()
     = (Inr (VObj [(''a'', VNum 5), (''j'', VBool False)]), ()) \<and>
   own_keys (VObj [(''a'', VNum 5), (''j'', VBool False)]) = [''a'', ''j'']"
proof -
  have d: "own_property_names (map fst (props type_a_j))" by code_simp
  have l: "length [js_fun fuzzNumber, js_fun fuzzBoolean :: unit encoder] = length (props type_a_j)"
    by (simp add: type_a_j_def)
  have e: "encode_all 5 [js_fun fuzzNumber, js_fun fuzzBoolean] () = (Inr [VNum 5, VBool False], ())"
    by (simp add: js_fun_def fuzzNumber_def fuzzBoolean_def js_rem_def)
  have p: "props type_a_j = [(''a'', number_codec), (''j'', boolean_codec)]"
    by (simp add: type_a_j_def)
  note T = fuzzInterface_all_properties
    [OF d l, of 5 "()" "VObj [(''a'', VNum 5), (''j'', VBool False)]" "()"]
  have c: "children (fuzzInterface type_a_j :: unit ConcreteFuzzer) = [number_codec, boolean_codec]"
    using T by (simp add: p)
  have "\<exists>vs. encode_all 5 [js_fun fuzzNumber, js_fun fuzzBoolean] () = (Inr vs, ()) \<and>
          length vs = length (props type_a_j) \<and>
          VObj [(''a'', VNum 5), (''j'', VBool False)] = VObj (zip (map fst (props type_a_j)) vs)"
    using e by (intro exI [of _ "[VNum 5, VBool False]"]) (simp add: p del: encode_all.simps)
  with T have f: "func (fuzzInterface type_a_j) 5 [js_fun fuzzNumber, js_fun fuzzBoolean] ()
           = (Inr (VObj [(''a'', VNum 5), (''j'', VBool False)]), ())"
    by blast
  from d l e c f show ?thesis by simp
qed

lemma fuzzPartial_children:
  "distinct (map fst (props b)) \<Longrightarrow> children (fuzzPartial b) = map snd (props b)"
  by (auto simp: fuzzPartial_def Let_def the_map_of)

lemma fuzzPartial_result:
  assumes "own_property_names (map fst (props b))" and "length h = length (props b)"
  shows "func (fuzzPartial b) n h s = (Inr v, s') \<longleftrightarrow>
           (\<exists>vs. encode_all n (select_from (\<lambda>i. i < 32 \<and> bit n i) 0 h) s = (Inr vs, s') \<and>
                 v = VObj (zip (select_from (\<lambda>i. i < 32 \<and> bit n i) 0 (map fst (props b))) vs))"
  by (rule result_of_values [OF fuzzPartial_func [OF assms]])

lemma fuzzPartial_own_keys:
  assumes "own_property_names (map fst (props b))" and "length h = length (props b)"
    and "func (fuzzPartial b) n h s = (Inr v, s')"
  shows "own_keys v = select_from (\<lambda>i. i < 32 \<and> bit n i) 0 (map fst (props b))"
proof -
  from assms(3) fuzzPartial_result [OF assms(1,2), of n s v s']
  obtain vs where e: "encode_all n (select_from (\<lambda>i. i < 32 \<and> bit n i) 0 h) s = (Inr vs, s')"
    and v: "v = VObj (zip (select_from (\<lambda>i. i < 32 \<and> bit n i) 0 (map fst (props b))) vs)"
    by blast
  have "length vs = length (select_from (\<lambda>i. i < 32 \<and> bit n i) 0 h)"
    by (rule encode_all_length [OF e])
  also have "\<dots> = length (select_from (\<lambda>i. i < 32 \<and> bit n i) 0 (map fst (props b)))"
    by (rule length_select_from) (simp add: assms(2))
  finally show ?thesis by (simp add: v)
qed

text \<open>
  Claim C2, as it holds of the code. For an optional-fields descriptor and a seed \<open>n\<close>,
  the rule calls, in declaration order, the children at the positions \<open>i < 32\<close> whose
  bit \<open>i\<close> of \<open>n\<close> is set, each on \<open>n\<close>, and returns the object of exactly those
  properties with the values the children returned. So a property at a position
  \<open>i < 32\<close> is present if and only if bit \<open>i\<close> of \<open>n\<close> is set, and a property that is
  not included is absent altogether.
\<close>

theorem fuzzPartial_low_bits:
  fixes h :: "'s encoder list"
  assumes "own_property_names (map fst (props b))" and "length h = length (props b)"
  shows "children (fuzzPartial b :: 's ConcreteFuzzer) = map snd (props b) \<and>
         (func (fuzzPartial b) n h s = (Inr v, s') \<longleftrightarrow>
            (\<exists>vs. encode_all n (select_from (\<lambda>i. i < 32 \<and> bit n i) 0 h) s = (Inr vs, s') \<and>
                  v = VObj (zip (select_from (\<lambda>i. i < 32 \<and> bit n i) 0 (map fst (props b))) vs))) \<and>
         (func (fuzzPartial b) n h s = (Inr v, s') \<longrightarrow>
            (\<forall>i < length (props b). i < 32 \<longrightarrow>
               (map fst (props b) ! i \<in> set (own_keys v) \<longleftrightarrow> bit n i))) \<and>
         (\<forall>fs. length fs = length (props b) \<longrightarrow>
            func (fuzzPartial b) n (map js_fun fs) s
              = (Inr (VObj (zip (select_from (\<lambda>i. i < 32 \<and> bit n i) 0 (map fst (props b)))
                             (map (\<lambda>f. f n) (select_from (\<lambda>i. i < 32 \<and> bit n i) 0 fs)))), s))"
proof -
  have pure: "func (fuzzPartial b) n (map js_fun fs) s
              = (Inr (VObj (zip (select_from (\<lambda>i. i < 32 \<and> bit n i) 0 (map fst (props b)))
                             (map (\<lambda>f. f n) (select_from (\<lambda>i. i < 32 \<and> bit n i) 0 fs)))), s)"
    if "length fs = length (props b)" for fs
    using that
    by (simp add: fuzzPartial_func [OF assms(1)] select_from_map encode_all_js_fun)
  have "map fst (props b) ! i \<in> set (own_keys v) \<longleftrightarrow> bit n i"
    if r: "func (fuzzPartial b) n h s = (Inr v, s')" and i: "i < length (props b)" "i < 32" for i
  proof -
    have "map fst (props b) ! i \<in> set (own_keys v) \<longleftrightarrow> (0 + i < 32 \<and> bit n (0 + i))"
      unfolding fuzzPartial_own_keys [OF assms r]
      by (rule nth_mem_select_from) (simp_all add: own_property_names_distinct [OF assms(1)] i(1))
    with i(2) show ?thesis by simp
  qed
  with pure fuzzPartial_children [OF own_property_names_distinct [OF assms(1)]] fuzzPartial_result [OF assms, of n s v s']
  show ?thesis by blast
qed

theorem fuzzPartial_low_bits_witness:
  "own_property_names (map fst (props partial_a_b)) \<and>
   length [js_fun fuzzNumber, js_fun fuzzString :: unit encoder] = length (props partial_a_b) \<and>
   func (fuzzPartial partial_a_b) 2 [js_fun fuzzNumber, js_fun fuzzString] ()
     = (Inr (VObj [(''b'', VStr ''2'')]), ()) \<and>
   \<not> bit (2 :: int) 0 \<and> ''a'' \<notin> set (own_keys (VObj [(''b'', VStr ''2'')])) \<and>
   bit (2 :: int) 1 \<and> ''b'' \<in> set (own_keys (VObj [(''b'', VStr ''2'')]))"
proof -
  have d: "own_property_names (map fst (props partial_a_b))" by code_simp
  have l: "length [js_fun fuzzNumber, js_fun fuzzString :: unit encoder] = length (props partial_a_b)"
    by (simp add: partial_a_b_def)
  have e: "func (fuzzPartial partial_a_b) 2 [js_fun fuzzNumber, js_fun fuzzString] ()
             = (Inr (VObj [(''b'', VStr ''2'')]), ())"
    by code_simp
  have k: "map fst (props partial_a_b) ! 0 = ''a''" "map fst (props partial_a_b) ! 1 = ''b''"
    "length (props partial_a_b) = 2"
    by (simp_all add: partial_a_b_def)
  from fuzzPartial_low_bits [OF d l, of 2 "()" "VObj [(''b'', VStr ''2'')]" "()"] e
  have all: "\<forall>i < length (props partial_a_b). i < 32 \<longrightarrow>
               (map fst (props partial_a_b) ! i \<in> set (own_keys (VObj [(''b'', VStr ''2'')]))
                  \<longleftrightarrow> bit (2 :: int) i)"
    by blast
  have b0: "\<not> bit (2 :: int) 0" and b1: "bit (2 :: int) 1" by simp_all
  from all k b0 have a: "''a'' \<notin> set (own_keys (VObj [(''b'', VStr ''2'')]))"
    by (metis zero_less_numeral)
  from all k b1 have b: "''b'' \<in> set (own_keys (VObj [(''b'', VStr ''2'')]))"
    by (metis one_less_numeral_iff semiring_norm(76) numeral_less_iff semiring_norm(78))
  from d l e b0 a b1 b show ?thesis by blast
qed

text \<open>
  Claim C2 as stated covers every position. With 33 declared properties and the seed
  \<open>2 ^ 32\<close>, bit 32 of the seed is set and the property at position 32 is not in the
  result.
\<close>

theorem fuzzPartial_bit32_counterexample:
  "bit (2 ^ 32 :: int) 32 \<and>
   length (props partial33) = 33 \<and>
   map fst (props partial33) ! 32 = ''p32'' \<and>
   func (fuzzPartial partial33) (2 ^ 32) (replicate 33 (js_fun fuzzNumber)) () = (Inr (VObj []), ()) \<and>
   ''p32'' \<notin> set (own_keys (VObj []))"
proof -
  have "func (fuzzPartial partial33) (2 ^ 32) (replicate 33 (js_fun fuzzNumber)) () = (Inr (VObj []), ())"
    by code_simp
  moreover have "map fst (props partial33) ! 32 = ''p32''" by code_simp
  moreover have "length (props partial33) = 33" by (simp add: partial33_def)
  ultimately show ?thesis by simp
qed

text \<open>
  Claim C9. The inclusion test \<^verbatim>\<open>n & (2 ** i)\<close> is a 32-bit conjunction, which is 0 for
  every \<open>i \<ge> 32\<close>: a property at a position \<open>i \<ge> 32\<close> is never in the result, whatever
  the seed.
\<close>

theorem fuzzPartial_high_positions:
  assumes "own_property_names (map fst (props b))" and "length h = length (props b)"
    and "32 \<le> i" and "i < length (props b)"
    and "func (fuzzPartial b) n h s = (Inr v, s')"
  shows "js_bitand n (2 ^ i) = 0 \<and> map fst (props b) ! i \<notin> set (own_keys v)"
proof -
  have z: "js_bitand n (2 ^ i) = 0" using js_bitand_pow2 [of n i] assms(3) by simp
  have "map fst (props b) ! i \<in> set (own_keys v) \<longleftrightarrow> (0 + i < 32 \<and> bit n (0 + i))"
    unfolding fuzzPartial_own_keys [OF assms(1,2,5)]
    by (rule nth_mem_select_from) (simp_all add: own_property_names_distinct [OF assms(1)] assms(4))
  with assms(3) z show ?thesis by simp
qed


theorem fuzzPartial_high_positions_witness:
  "own_property_names (map fst (props partial33)) \<and>
   length (replicate 33 (js_fun fuzzNumber) :: unit encoder list) = length (props partial33) \<and>
   (32 :: nat) \<le> 32 \<and> 32 < length (props partial33) \<and>
   bit (2 ^ 32 + 1 :: int) 32 \<and>
   func (fuzzPartial partial33) (2 ^ 32 + 1) (replicate 33 (js_fun fuzzNumber)) ()
     = (Inr (VObj [(''p0'', VNum 4294967297)]), ()) \<and>
   js_bitand (2 ^ 32 + 1) (2 ^ 32) = 0 \<and>
   map fst (props partial33) ! 32 = ''p32'' \<and>
   ''p32'' \<notin> set (own_keys (VObj [(''p0'', VNum 4294967297)]))"
proof -
  have d: "own_property_names (map fst (props partial33))" by code_simp
  have l: "length (replicate 33 (js_fun fuzzNumber) :: unit encoder list) = length (props partial33)"
    by (simp add: partial33_def)
  have i: "32 < length (props partial33)" by (simp add: partial33_def)
  have e: "func (fuzzPartial partial33) (2 ^ 32 + 1) (replicate 33 (js_fun fuzzNumber)) ()
             = (Inr (VObj [(''p0'', VNum 4294967297)]), ())"
    by code_simp
  have k: "map fst (props partial33) ! 32 = ''p32''" by code_simp
  have b: "bit (2 ^ 32 + 1 :: int) 32" by code_simp
  from fuzzPartial_high_positions [OF d l order_refl i e] k
  have "js_bitand (2 ^ 32 + 1) (2 ^ 32) = 0"
    and "''p32'' \<notin> set (own_keys (VObj [(''p0'', VNum 4294967297)]))"
    by simp_all
  with d l i e k b show ?thesis by simp
qed


section \<open>Registration\<close>

lemma register_heap:
  "r < length H \<Longrightarrow> snd (register r fs H) ! r = foldl store_rule (H ! r) fs"
  by (simp add: register_def)

text \<open>
  Claim C6. For two definitions \<open>A\<close> and \<open>B\<close> with the same id, registered in this order
  in an existing registry: \<^verbatim>\<open>register\<close> returns the registry it was called on; one call
  with both gives the same heap as a call with \<open>A\<close> followed by a call with \<open>B\<close> on the
  returned registry; afterwards \<open>B\<close> is stored under the id, and \<^verbatim>\<open>getFuzzer\<close> returns
  \<open>B\<close> for every descriptor that resolves to this id (by its name, or by its tag when
  no rule is registered under its name).
\<close>

theorem register_last_wins:
  assumes "r < length H" and "id' A = id' B" and "idType A = idType B"
  shows "fst (register r [A, B] H) = r \<and>
         register r [A, B] H = (case register r [A] H of (r', H') \<Rightarrow> register r' [B] H') \<and>
         (snd (register r [A, B] H) ! r) (idType B, id' B) = Some B \<and>
         (\<forall>b. (idType B = NameId \<and> name b = id' B) \<or>
              (idType B = TagId \<and> tag b = id' B \<and>
               (snd (register r [A, B] H) ! r) (NameId, name b) = None)
              \<longrightarrow> getFuzzer r b (snd (register r [A, B] H)) = Some B)"
proof -
  have 1: "fst (register r [A, B] H) = r" by (simp add: register_def)
  have 2: "register r [A, B] H = (case register r [A] H of (r', H') \<Rightarrow> register r' [B] H')"
    using assms(1) by (simp add: register_def)
  have 3: "(snd (register r [A, B] H) ! r) (idType B, id' B) = Some B"
    using assms(1) by (simp add: register_heap store_rule_def)
  have len: "r < length (snd (register r [A, B] H))" using assms(1) by (simp add: register_def)
  have 4: "getFuzzer r b (snd (register r [A, B] H)) = Some B"
    if "(idType B = NameId \<and> name b = id' B) \<or>
        (idType B = TagId \<and> tag b = id' B \<and>
         (snd (register r [A, B] H) ! r) (NameId, name b) = None)" for b
    using that 3 len by (auto simp: getFuzzer_def lookup_rule_def)
  from 1 2 3 4 show ?thesis by blast
qed

theorem register_last_wins_witness:
  "0 < length (snd (createRegistry ([] :: unit heap))) \<and>
   id' (fuzzStr1 :: unit Fuzzer) = id' (fuzzStr2 :: unit Fuzzer) \<and>
   idType (fuzzStr1 :: unit Fuzzer) = idType (fuzzStr2 :: unit Fuzzer) \<and>
   idType (fuzzStr2 :: unit Fuzzer) = TagId \<and> tag string_codec = id' (fuzzStr2 :: unit Fuzzer) \<and>
   fst (register 0 [fuzzStr1, fuzzStr2] (snd (createRegistry ([] :: unit heap)))) = 0 \<and>
   register 0 [fuzzStr1, fuzzStr2] (snd (createRegistry ([] :: unit heap)))
     = register 0 [fuzzStr2] (snd (register 0 [fuzzStr1] (snd (createRegistry ([] :: unit heap))))) \<and>
   getFuzzer 0 string_codec (snd (register 0 [fuzzStr1, fuzzStr2] (snd (createRegistry ([] :: unit heap)))))
     = Some fuzzStr2"
proof -
  let ?H = "snd (createRegistry ([] :: unit heap))"
  have l: "0 < length ?H" by (simp add: createRegistry_def)
  have i: "id' (fuzzStr1 :: unit Fuzzer) = id' (fuzzStr2 :: unit Fuzzer)"
    and t: "idType (fuzzStr1 :: unit Fuzzer) = idType (fuzzStr2 :: unit Fuzzer)"
    by (simp_all add: fuzzStr1_def fuzzStr2_def)
  have k: "idType (fuzzStr2 :: unit Fuzzer) = TagId" "tag string_codec = id' (fuzzStr2 :: unit Fuzzer)"
    by (simp_all add: fuzzStr2_def string_codec_def)
  have n: "(snd (register 0 [fuzzStr1, fuzzStr2] ?H) ! 0) (NameId, name string_codec) = None"
    by (simp add: register_def createRegistry_def store_rule_def fuzzStr1_def fuzzStr2_def)
  note T = register_last_wins [OF l i t]
  from T have 1: "fst (register 0 [fuzzStr1, fuzzStr2] ?H) = 0" by blast
  from T have 2: "register 0 [fuzzStr1, fuzzStr2] ?H
     = (case register 0 [fuzzStr1] ?H of (r', H') \<Rightarrow> register r' [fuzzStr2] H')" by blast
  then have 2: "register 0 [fuzzStr1, fuzzStr2] ?H = register 0 [fuzzStr2] (snd (register 0 [fuzzStr1] ?H))"
    by (simp add: register_def)
  from T k n have 3: "getFuzzer 0 string_codec (snd (register 0 [fuzzStr1, fuzzStr2] ?H)) = Some fuzzStr2"
    by blast
  from l i t k 1 2 3 show ?thesis by blast
qed


end
